theory Spec2Isabelle
  imports Complex_Main "HOL-Library.Sublist" "HOL-Library.AList"
begin

section \<open>Strings as the scoring code reads them\<close>

text \<open>
  A response is a Python \<open>str\<close>. The model uses \<open>string\<close> and reads every
  \<open>char\<close> as one code point below 256. Python floats are modelled as real
  numbers: the scoring formulas are written with exact arithmetic.
\<close>

datatype error = ValueError string | KeyError | IndexError | ModelError string

definition is_space :: "char \<Rightarrow> bool" where
  \<comment> \<open>\<open>str.isspace\<close> (and the regex class \<open>\s\<close>) on code points below 256\<close>
  "is_space c = (c \<in> set [CHR 0x09, CHR 0x0A, CHR 0x0B, CHR 0x0C, CHR 0x0D,
                            CHR 0x1C, CHR 0x1D, CHR 0x1E, CHR 0x1F, CHR 0x20,
                            CHR 0x85, CHR 0xA0])"

definition is_digit :: "char \<Rightarrow> bool" where
  \<comment> \<open>the regex class \<open>\d\<close> on code points below 256\<close>
  "is_digit c = (c \<in> set ''0123456789'')"

definition lower_char :: "char \<Rightarrow> char" where
  "lower_char c =
     (let n = (of_char c :: nat)
      in if (65 \<le> n \<and> n \<le> 90) \<or> (192 \<le> n \<and> n \<le> 222 \<and> n \<noteq> 215)
         then char_of (n + 32) else c)"

definition lower :: "string \<Rightarrow> string" where
  "lower s = map lower_char s"

definition strip :: "string \<Rightarrow> string" where
  "strip s = rev (dropWhile is_space (rev (dropWhile is_space s)))"

fun split_acc :: "string \<Rightarrow> string \<Rightarrow> string list" where
  "split_acc cur [] = (if cur = [] then [] else [cur])"
| "split_acc cur (c # cs) =
     (if is_space c
      then (if cur = [] then split_acc [] cs else cur # split_acc [] cs)
      else split_acc (cur @ [c]) cs)"

definition split :: "string \<Rightarrow> string list" where
  \<comment> \<open>\<open>str.split()\<close> with no argument: the maximal runs of non-whitespace\<close>
  "split s = split_acc [] s"

fun contains :: "string \<Rightarrow> string \<Rightarrow> bool" where
  \<comment> \<open>\<open>sub in s\<close>\<close>
  "contains sub [] = (sub = [])"
| "contains sub (c # cs) = (prefix sub (c # cs) \<or> contains sub cs)"

definition endswith :: "string \<Rightarrow> string \<Rightarrow> bool" where
  "endswith s sub = suffix sub s"

section \<open>The heuristic scorers of \<open>harness/metrics.py\<close>\<close>

subsection \<open>\<open>compute_efficiency_score\<close>\<close>

definition compute_efficiency_score :: "string \<Rightarrow> real" where
  "compute_efficiency_score response =
     (let word_count = length (split response)
      in if 50 \<le> word_count \<and> word_count \<le> 200 then 1
         else if word_count < 50 then max (1 / 2) (real word_count / 50)
         else max (3 / 10) (1 - (real word_count - 200) / 500))"

subsection \<open>\<open>compute_spatialeval_score\<close>\<close>

definition round2 :: "real \<Rightarrow> real" where
  \<comment> \<open>\<open>round(x, 2)\<close>: to the nearest hundredth, a tie to the even one\<close>
  "round2 x =
     (let y = x * 100; f = \<lfloor>y\<rfloor>
      in if y - of_int f < 1 / 2 then of_int f / 100
         else if 1 / 2 < y - of_int f then of_int (f + 1) / 100
         else of_int (if even f then f else f + 1) / 100)"

definition default_weights :: "real list" where
  "default_weights = [1 / 2, 3 / 10, 2 / 10]"

definition compute_spatialeval_score :: "real \<Rightarrow> real \<Rightarrow> real \<Rightarrow> real list \<Rightarrow> error + real" where
  \<comment> \<open>\<open>weights\<close> is a tuple; unpacking it into three names raises ValueError
      when it does not hold exactly three values\<close>
  "compute_spatialeval_score accuracy reasoning efficiency weights =
     (case weights of
        [w_acc, w_reas, w_eff] \<Rightarrow>
          Inr (round2 ((accuracy * w_acc + reasoning * w_reas + efficiency * w_eff) * 100))
      | _ \<Rightarrow>
          Inl (ValueError (if length weights < 3 then ''not enough values to unpack''
                           else ''too many values to unpack'')))"

subsection \<open>\<open>compute_reasoning_score\<close>\<close>

definition reasoning_indicators :: "string list" where
  "reasoning_indicators =
     [''first'', ''second'', ''then'', ''next'', ''therefore'', ''thus'',
      ''because'', ''since'', ''step'', ''calculate'', ''compute'',
      ''the formula'', ''using'', ''applying'', ''we get'', ''we have'']"

definition is_operator :: "char \<Rightarrow> bool" where
  "is_operator c = (c \<in> set ''+-*/='')"

definition math_here :: "string \<Rightarrow> bool" where
  \<comment> \<open>the pattern \<open>\d+\s*[\+\-\*\/\=]\s*\d+\<close> matched at the head of the string\<close>
  "math_here s =
     (case s of
        [] \<Rightarrow> False
      | c # cs \<Rightarrow>
          is_digit c \<and>
          (case dropWhile is_space (dropWhile is_digit cs) of
             [] \<Rightarrow> False
           | opc # r \<Rightarrow>
               is_operator opc \<and>
               (case dropWhile is_space r of [] \<Rightarrow> False | d # _ \<Rightarrow> is_digit d)))"

fun search_math :: "string \<Rightarrow> bool" where
  "search_math [] = False"
| "search_math (c # cs) = (math_here (c # cs) \<or> search_math cs)"

definition marker_here :: "string \<Rightarrow> bool" where
  \<comment> \<open>the pattern \<open>(answer|result|solution)[\s:]+\<close> matched at the head of the string\<close>
  "marker_here s =
     (\<exists>w \<in> set [''answer'', ''result'', ''solution''].
        prefix w s \<and>
        (case drop (length w) s of [] \<Rightarrow> False | d # _ \<Rightarrow> is_space d \<or> d = CHR '':''))"

fun search_marker :: "string \<Rightarrow> bool" where
  "search_marker [] = False"
| "search_marker (c # cs) = (marker_here (c # cs) \<or> search_marker cs)"

definition compute_reasoning_score :: "string \<Rightarrow> real" where
  "compute_reasoning_score response =
     (let score0 = 1 / 2;
          response_lower = lower response;
          indicator_count = length (filter (\<lambda>ind. contains ind response_lower) reasoning_indicators);
          score1 = score0 + min (real indicator_count * (5 / 100)) (3 / 10);
          score2 = (if search_math response then score1 + 1 / 10 else score1);
          score3 = (if search_marker response_lower then score2 + 1 / 10 else score2)
      in min score3 1)"


section \<open>The accuracy matcher \<open>compute_accuracy\<close>\<close>

text \<open>
  The ground truth is duck-typed in the source: \<open>int\<close> and \<open>float\<close> take the numeric
  branch, \<open>str\<close> the string branch, \<open>list\<close> the accept-any-of branch, and every
  other value scores 0.
\<close>

datatype ground_truth = GNum real | GStr string | GList "ground_truth list" | GOther

datatype scan = Idle | IntPart string | FracPart string

definition starts_number :: "char \<Rightarrow> string \<Rightarrow> bool" where
  \<comment> \<open>a match of \<open>-?\d+\.?\d*\<close> begins at \<open>c\<close>: a digit, or a minus sign right
      before a digit\<close>
  "starts_number c cs =
     (is_digit c \<or> (c = CHR ''-'' \<and> (case cs of [] \<Rightarrow> False | d # _ \<Rightarrow> is_digit d)))"

fun findall_numbers :: "scan \<Rightarrow> string \<Rightarrow> string list" where
  "findall_numbers Idle [] = []"
| "findall_numbers (IntPart m) [] = [m]"
| "findall_numbers (FracPart m) [] = [m]"
| "findall_numbers Idle (c # cs) =
     (if starts_number c cs then findall_numbers (IntPart [c]) cs
      else findall_numbers Idle cs)"
| "findall_numbers (IntPart m) (c # cs) =
     (if is_digit c then findall_numbers (IntPart (m @ [c])) cs
      else if c = CHR ''.'' then findall_numbers (FracPart (m @ [c])) cs
      else m # (if starts_number c cs then findall_numbers (IntPart [c]) cs
                else findall_numbers Idle cs))"
| "findall_numbers (FracPart m) (c # cs) =
     (if is_digit c then findall_numbers (FracPart (m @ [c])) cs
      else m # (if starts_number c cs then findall_numbers (IntPart [c]) cs
                else findall_numbers Idle cs))"

definition findall :: "string \<Rightarrow> string list" where
  \<comment> \<open>\<open>re.findall(r"-?\d+\.?\d*", response)\<close>: the leftmost, longest,
      non-overlapping matches, scanned left to right\<close>
  "findall response = findall_numbers Idle response"

definition digit_val :: "char \<Rightarrow> nat" where
  "digit_val c = of_char c - 48"

definition digits_val :: "string \<Rightarrow> nat" where
  "digits_val ds = foldl (\<lambda>a c. 10 * a + digit_val c) 0 ds"

definition unsigned_float :: "string \<Rightarrow> real option" where
  "unsigned_float body =
     (let ip = takeWhile is_digit body; rest = dropWhile is_digit body
      in if ip = [] then None
         else (case rest of
                 [] \<Rightarrow> Some (real (digits_val ip))
               | c # fp \<Rightarrow>
                   if c = CHR ''.'' \<and> list_all is_digit fp
                   then Some (real (digits_val ip) + real (digits_val fp) / 10 ^ length fp)
                   else None))"

definition float :: "string \<Rightarrow> real option" where
  \<comment> \<open>\<open>float(num_str)\<close> on the strings \<open>findall\<close> produces: a sign, digits, and
      an optional point with more digits; \<open>None\<close> is the ValueError\<close>
  "float num_str =
     (case num_str of
        [] \<Rightarrow> None
      | c # cs \<Rightarrow>
          if c = CHR ''-'' then map_option uminus (unsigned_float cs)
          else unsigned_float (c # cs))"

fun score_candidates :: "real \<Rightarrow> string list \<Rightarrow> real" where
  \<comment> \<open>the loop over \<open>reversed(numbers)\<close>; the list is already reversed\<close>
  "score_candidates ground_truth [] = 0"
| "score_candidates ground_truth (num_str # rest) =
     (case float num_str of
        None \<Rightarrow> score_candidates ground_truth rest
      | Some extracted_num \<Rightarrow>
          if \<bar>extracted_num - ground_truth\<bar> < 1 / 10 ^ 6 then 1
          else if ground_truth \<noteq> 0
          then (let relative_error = \<bar>extracted_num - ground_truth\<bar> / \<bar>ground_truth\<bar>
                in if relative_error < 1 / 100 then 9 / 10
                   else if relative_error < 5 / 100 then 7 / 10
                   else score_candidates ground_truth rest)
          else score_candidates ground_truth rest)"

fun compute_accuracy :: "string \<Rightarrow> ground_truth \<Rightarrow> real" where
  "compute_accuracy response (GNum g) = score_candidates g (rev (findall response))"
| "compute_accuracy response (GStr s) =
     (let response_lower = strip (lower response); gt_lower = strip (lower s)
      in if contains gt_lower response_lower then 1
         else if endswith response_lower gt_lower then 1
         else 0)"
| "compute_accuracy response (GList gts) =
     (if \<exists>gt \<in> set gts. 1 / 2 < compute_accuracy response gt then 1 else 0)"
| "compute_accuracy response GOther = 0"

fun digits :: "nat \<Rightarrow> string" where
  "digits n =
     (if n < 10 then [char_of (48 + n)] else digits (n div 10) @ [char_of (48 + n mod 10)])"

declare digits.simps [simp del]

definition str_int :: "int \<Rightarrow> string" where
  \<comment> \<open>\<open>str(g)\<close> for an \<open>int\<close>\<close>
  "str_int g = (if g < 0 then CHR ''-'' # digits (nat (- g)) else digits (nat g))"

section \<open>Loading the dataset: \<open>data.py\<close>\<close>

text \<open>
  A task file holds a list of task objects; the harness reads the fields \<open>task_id\<close>,
  \<open>prompt\<close> and \<open>ground_truth\<close> of each. The files under \<open>data_dir\<close> are a
  parameter \<open>fs\<close>: \<open>fs category difficulty\<close> is \<open>None\<close> when
  \<open>data_dir/category/difficulty/tasks.json\<close> does not exist and the decoded task
  list otherwise. A dictionary is an association list in insertion order, and
  \<open>AList.update\<close> is the assignment \<open>d[k] = v\<close>.
\<close>

record task =
  task_id :: string
  prompt :: string
  ground_truth :: ground_truth

type_synonym files = "string \<Rightarrow> string \<Rightarrow> task list option"

type_synonym dataset = "(string \<times> (string \<times> task list) list) list"

definition CATEGORIES :: "string list" where
  "CATEGORIES =
     [''coordinate_understanding'', ''navigation_pathfinding'', ''real_estate'',
      ''network_infrastructure'', ''geometric_reasoning'', ''distance_computation'']"

definition DIFFICULTIES :: "string list" where
  "DIFFICULTIES = [''easy'', ''medium'', ''hard'']"

definition read_tasks :: "files \<Rightarrow> string \<Rightarrow> string \<Rightarrow> task list" where
  \<comment> \<open>the decoded file when it exists, the empty list otherwise\<close>
  "read_tasks fs category difficulty =
     (case fs category difficulty of Some tasks \<Rightarrow> tasks | None \<Rightarrow> [])"

fun load_difficulties ::
  "files \<Rightarrow> string \<Rightarrow> string list \<Rightarrow> (string \<times> task list) list \<Rightarrow>
   error + (string \<times> task list) list" where
  "load_difficulties fs category [] entry = Inr entry"
| "load_difficulties fs category (difficulty # rest) entry =
     (if difficulty \<notin> set DIFFICULTIES then Inl (ValueError ''Unknown difficulty'')
      else load_difficulties fs category rest
             (AList.update difficulty (read_tasks fs category difficulty) entry))"

fun load_categories ::
  "string list \<Rightarrow> files \<Rightarrow> string list \<Rightarrow> string list \<Rightarrow> dataset \<Rightarrow> error + dataset" where
  \<comment> \<open>the loop over the requested categories; the first argument is the module's
      list of known categories\<close>
  "load_categories known fs [] difficulties dataset = Inr dataset"
| "load_categories known fs (category # rest) difficulties dataset =
     (if category \<notin> set known then Inl (ValueError ''Unknown category'')
      else (case load_difficulties fs category difficulties [] of
              Inl e \<Rightarrow> Inl e
            | Inr entry \<Rightarrow>
                load_categories known fs rest difficulties
                  (AList.update category entry dataset)))"

definition load_dataset ::
  "files \<Rightarrow> string list option \<Rightarrow> string list option \<Rightarrow> error + dataset" where
  "load_dataset fs categories difficulties =
     load_categories CATEGORIES fs
       (case categories of None \<Rightarrow> CATEGORIES | Some cs \<Rightarrow> cs)
       (case difficulties of None \<Rightarrow> DIFFICULTIES | Some ds \<Rightarrow> ds) []"

subsection \<open>The \<open>spatialops\<close> package's loader, which the evaluator calls\<close>

definition TIER_1_CATEGORIES :: "string list" where
  "TIER_1_CATEGORIES =
     [''coordinate_understanding'', ''geometric_reasoning'', ''distance_computation'',
      ''topological_reasoning'']"

definition TIER_2_CATEGORIES :: "string list" where
  "TIER_2_CATEGORIES =
     [''navigation_pathfinding'', ''viewpoint_visibility'', ''pattern_recognition'',
      ''network_infrastructure'']"

definition TIER_3_CATEGORIES :: "string list" where
  "TIER_3_CATEGORIES =
     [''constraint_based_placement'', ''resource_allocation'',
      ''temporal_spatial_reasoning'', ''real_estate_geospatial'']"

definition spatialops_CATEGORIES :: "string list" where
  "spatialops_CATEGORIES = TIER_1_CATEGORIES @ TIER_2_CATEGORIES @ TIER_3_CATEGORIES"

definition spatialops_load_dataset ::
  "files \<Rightarrow> string list option \<Rightarrow> string list option \<Rightarrow> int option \<Rightarrow> error + dataset" where
  "spatialops_load_dataset fs categories difficulties tier =
     (let cats_to_load =
            (case tier of
               Some t \<Rightarrow>
                 if t = 1 then Inr TIER_1_CATEGORIES
                 else if t = 2 then Inr TIER_2_CATEGORIES
                 else if t = 3 then Inr TIER_3_CATEGORIES
                 else Inl (ValueError ''Invalid tier'')
             | None \<Rightarrow>
                 (case categories of Some cs \<Rightarrow> Inr cs | None \<Rightarrow> Inr spatialops_CATEGORIES))
      in case cats_to_load of
           Inl e \<Rightarrow> Inl e
         | Inr cs \<Rightarrow>
             load_categories spatialops_CATEGORIES fs cs
               (case difficulties of None \<Rightarrow> DIFFICULTIES | Some ds \<Rightarrow> ds) [])"

definition no_files :: files where
  \<comment> \<open>an empty data directory\<close>
  "no_files category difficulty = None"

definition loaded :: "files \<Rightarrow> string list \<Rightarrow> dataset \<Rightarrow> string \<Rightarrow> bool" where
  \<comment> \<open>the loaded dictionary \<open>r\<close> holds, for category \<open>c\<close>, the tasks of every
      requested difficulty\<close>
  "loaded fs ds r c \<longleftrightarrow>
     (\<exists>entry. map_of r c = Some entry \<and>
        (\<forall>d \<in> set ds. map_of entry d = Some (read_tasks fs c d)))"


section \<open>The evaluation harness: \<open>harness/evaluator.py\<close>\<close>

text \<open>
  The model callable takes a prompt and returns a response or raises; \<open>Inl\<close> is the
  exception it raises. The evaluator object is a record that \<open>run\<close> takes and
  returns: \<open>self.results\<close> keeps what was appended before an exception left the loop.
\<close>

record result = task +
  category :: string
  difficulty :: string
  response :: string
  accuracy :: real
  reasoning_score :: real
  efficiency_score :: real

record evaluator =
  model_fn :: "string \<Rightarrow> error + string"
  dataset :: dataset
  results :: "result list"

record category_score =
  cat_accuracy :: real
  cat_reasoning :: real
  cat_efficiency :: real
  cat_score :: real

record scores =
  overall_score :: real
  total_accuracy :: real
  total_reasoning :: real
  total_efficiency :: real
  num_tasks :: nat
  per_category :: "(string \<times> category_score) list"

datatype report = NoResults | Report scores

definition Evaluator ::
  "(string \<Rightarrow> error + string) \<Rightarrow> files \<Rightarrow> string list option \<Rightarrow> string list option \<Rightarrow>
   error + evaluator" where
  \<comment> \<open>\<open>Evaluator.__init__\<close>\<close>
  "Evaluator fn fs categories difficulties =
     (case spatialops_load_dataset fs categories difficulties None of
        Inl e \<Rightarrow> Inl e
      | Inr ds \<Rightarrow> Inr \<lparr>model_fn = fn, dataset = ds, results = []\<rparr>)"

definition all_tasks_of :: "dataset \<Rightarrow> (string \<times> string \<times> task) list" where
  "all_tasks_of ds =
     concat (map (\<lambda>(cat, category_data).
       concat (map (\<lambda>(diff, tasks). map (\<lambda>t. (cat, diff, t)) tasks) category_data)) ds)"

definition slice_to :: "'a list \<Rightarrow> int \<Rightarrow> 'a list" where
  \<comment> \<open>\<open>xs[:n]\<close>; a negative \<open>n\<close> counts from the end\<close>
  "slice_to xs n = (if 0 \<le> n then take (nat n) xs else take (length xs - nat (- n)) xs)"

definition evaluate_task :: "string \<Rightarrow> string \<Rightarrow> task \<Rightarrow> string \<Rightarrow> result" where
  \<comment> \<open>the metrics of one response and the result dictionary built from them\<close>
  "evaluate_task cat diff t resp =
     \<lparr>task_id = task_id t, prompt = prompt t, ground_truth = ground_truth t,
      category = cat, difficulty = diff, response = resp,
      accuracy = compute_accuracy resp (ground_truth t),
      reasoning_score = compute_reasoning_score resp,
      efficiency_score = compute_efficiency_score resp\<rparr>"

fun run_loop ::
  "(string \<Rightarrow> error + string) \<Rightarrow> (string \<times> string \<times> task) list \<Rightarrow> result list \<Rightarrow>
   error option \<times> result list" where
  \<comment> \<open>the \<open>for\<close> loop of \<open>run\<close>: nothing surrounds the call of the model, so its
      exception leaves the loop\<close>
  "run_loop fn [] rs = (None, rs)"
| "run_loop fn ((cat, diff, t) # rest) rs =
     (case fn (prompt t) of
        Inl e \<Rightarrow> (Some e, rs)
      | Inr resp \<Rightarrow> run_loop fn rest (rs @ [evaluate_task cat diff t resp]))"

definition mean :: "real list \<Rightarrow> real" where
  "mean xs = sum_list xs / real (length xs)"

definition category_scores :: "string list \<Rightarrow> result list \<Rightarrow> error + (string \<times> category_score) list" where
  "category_scores cats rs =
     foldl (\<lambda>acc cat.
        case acc of
          Inl e \<Rightarrow> Inl e
        | Inr scs \<Rightarrow>
            (let cat_results = filter (\<lambda>r. category r = cat) rs
             in if cat_results = [] then Inr scs
                else (let cat_acc = mean (map accuracy cat_results);
                          cat_reas = mean (map reasoning_score cat_results);
                          cat_eff = mean (map efficiency_score cat_results)
                      in case compute_spatialeval_score cat_acc cat_reas cat_eff default_weights of
                           Inl e \<Rightarrow> Inl e
                         | Inr s \<Rightarrow>
                             Inr (AList.update cat
                                    \<lparr>cat_accuracy = cat_acc, cat_reasoning = cat_reas,
                                     cat_efficiency = cat_eff, cat_score = s\<rparr> scs))))
       (Inr []) cats"

definition compute_final_scores :: "evaluator \<Rightarrow> error + report" where
  \<comment> \<open>\<open>_compute_final_scores\<close>; the composite score is the metrics module's
      function under its default weights\<close>
  "compute_final_scores ev =
     (let rs = results ev
      in if rs = [] then Inr NoResults
         else (let acc = mean (map accuracy rs);
                   reas = mean (map reasoning_score rs);
                   eff = mean (map efficiency_score rs)
               in case compute_spatialeval_score acc reas eff default_weights of
                    Inl e \<Rightarrow> Inl e
                  | Inr overall \<Rightarrow>
                      (case category_scores (map fst (dataset ev)) rs of
                         Inl e \<Rightarrow> Inl e
                       | Inr cs \<Rightarrow>
                           Inr (Report \<lparr>overall_score = overall, total_accuracy = acc,
                                        total_reasoning = reas, total_efficiency = eff,
                                        num_tasks = length rs, per_category = cs\<rparr>))))"

definition selected_tasks :: "evaluator \<Rightarrow> int option \<Rightarrow> (string \<times> string \<times> task) list" where
  "selected_tasks ev max_tasks =
     (case max_tasks of
        None \<Rightarrow> all_tasks_of (dataset ev)
      | Some n \<Rightarrow> slice_to (all_tasks_of (dataset ev)) n)"

definition run :: "evaluator \<Rightarrow> int option \<Rightarrow> (error + report) \<times> evaluator" where
  "run ev max_tasks =
     (case run_loop (model_fn ev) (selected_tasks ev max_tasks) [] of
        (Some e, rs) \<Rightarrow> (Inl e, ev\<lparr>results := rs\<rparr>)
      | (None, rs) \<Rightarrow> (compute_final_scores (ev\<lparr>results := rs\<rparr>), ev\<lparr>results := rs\<rparr>))"

definition two_tasks :: dataset where
  "two_tasks =
     [(''navigation_pathfinding'',
       [(''easy'',
         [\<lparr>task_id = ''NP_easy_0001'', prompt = ''first prompt'', ground_truth = GNum 4\<rparr>,
          \<lparr>task_id = ''NP_easy_0002'', prompt = ''second prompt'', ground_truth = GNum 6\<rparr>])])]"

definition failing_once :: "string \<Rightarrow> error + string" where
  \<comment> \<open>a model callable that raises on one prompt and answers every other\<close>
  "failing_once p = (if p = ''first prompt'' then Inl (ModelError ''timeout'') else Inr ''6'')"

definition answering :: "string \<Rightarrow> error + string" where
  \<comment> \<open>a model callable that never raises\<close>
  "answering p = Inr ''The answer is 4''"


section \<open>The graph and grid primitives of \<open>generate_dataset_v2.py\<close>\<close>

subsection \<open>\<open>bfs_connected\<close>\<close>

text \<open>
  The adjacency dictionary maps a node to the list of its neighbours;
  \<open>graph.get(node, [])\<close> is the empty list for a node that is not a key. The queue is
  a list, popped at the head and extended at the tail; the visited set is a set.
  The parameter \<open>end\<close> of the source is called \<open>goal\<close> here.
\<close>

type_synonym graph = "(int \<times> int list) list"

definition graph_get :: "graph \<Rightarrow> int \<Rightarrow> int list" where
  "graph_get graph node = (case map_of graph node of None \<Rightarrow> [] | Some ns \<Rightarrow> ns)"

definition all_neighbors :: "graph \<Rightarrow> int set" where
  \<comment> \<open>every node that some adjacency list names\<close>
  "all_neighbors graph = (\<Union>ns \<in> snd ` set graph. set ns)"

function bfs_loop :: "graph \<Rightarrow> int \<Rightarrow> int list \<Rightarrow> int set \<Rightarrow> bool" where
  "bfs_loop graph goal [] visited = False"
| "bfs_loop graph goal (node # queue) visited =
     (if node = goal then True
      else if node \<in> visited then bfs_loop graph goal queue visited
      else bfs_loop graph goal
             (queue @ filter (\<lambda>neighbor. neighbor \<notin> insert node visited) (graph_get graph node))
             (insert node visited))"
  by pat_completeness auto

termination bfs_loop
proof (relation "measures [\<lambda>(graph, goal, queue, visited).
                             card ((set queue \<union> all_neighbors graph) - visited),
                           \<lambda>(graph, goal, queue, visited). length queue]", goal_cases)
  case 1
  show ?case by simp
next
  case (2 graph goal node queue visited)
  have "(set queue \<union> all_neighbors graph) - visited
        \<subseteq> (set (node # queue) \<union> all_neighbors graph) - visited" by auto
  moreover have "finite ((set (node # queue) \<union> all_neighbors graph) - visited)"
    by (simp add: all_neighbors_def)
  ultimately have "card ((set queue \<union> all_neighbors graph) - visited)
        \<le> card ((set (node # queue) \<union> all_neighbors graph) - visited)"
    by (rule card_mono [rotated])
  then show ?case by auto
next
  case (3 graph goal node queue visited)
  let ?q = "queue @ filter (\<lambda>neighbor. neighbor \<notin> insert node visited) (graph_get graph node)"
  have nbs: "set (graph_get graph node) \<subseteq> all_neighbors graph"
  proof (cases "map_of graph node")
    case None
    then show ?thesis by (simp add: graph_get_def)
  next
    case (Some ns)
    then have "(node, ns) \<in> set graph" by (rule map_of_SomeD)
    then have "ns \<in> snd ` set graph" by force
    then show ?thesis using Some by (auto simp: graph_get_def all_neighbors_def)
  qed
  have sub: "(set ?q \<union> all_neighbors graph) - insert node visited
        \<subseteq> (set (node # queue) \<union> all_neighbors graph) - visited"
    using nbs by auto
  have fin: "finite ((set (node # queue) \<union> all_neighbors graph) - visited)"
    by (simp add: all_neighbors_def)
  have "node \<in> (set (node # queue) \<union> all_neighbors graph) - visited"
    using 3 by simp
  moreover have "node \<notin> (set ?q \<union> all_neighbors graph) - insert node visited" by simp
  ultimately have "(set ?q \<union> all_neighbors graph) - insert node visited
        \<subset> (set (node # queue) \<union> all_neighbors graph) - visited"
    using sub by blast
  then have "card ((set ?q \<union> all_neighbors graph) - insert node visited)
        < card ((set (node # queue) \<union> all_neighbors graph) - visited)"
    using fin by (rule psubset_card_mono [rotated])
  then show ?case by simp
qed

definition bfs_connected :: "graph \<Rightarrow> int \<Rightarrow> int \<Rightarrow> bool" where
  "bfs_connected graph start goal =
     (if start = goal then True else bfs_loop graph goal [start] {})"

definition edges :: "graph \<Rightarrow> (int \<times> int) set" where
  \<comment> \<open>the pairs \<open>(a, b)\<close> with \<open>b\<close> listed as a neighbour of \<open>a\<close>\<close>
  "edges graph = {(a, b). b \<in> set (graph_get graph a)}"

definition line_graph :: graph where
  \<comment> \<open>the undirected path 1 - 2 - 3 and the isolated node 4\<close>
  "line_graph = [(1, [2]), (2, [1, 3]), (3, [2]), (4, [])]"


section \<open>Properties of the heuristic scorers\<close>

lemma split_acc_word: "split_acc [] (''w '' @ s) = ''w'' # split_acc [] s"
  by (simp add: is_space_def)

lemma word_count_replicate: "length (split (concat (replicate n ''w ''))) = n"
  unfolding split_def
proof (induction n)
  case 0
  show ?case by simp
next
  case (Suc n)
  have "split_acc [] (concat (replicate (Suc n) ''w '')) =
        ''w'' # split_acc [] (concat (replicate n ''w ''))"
    using split_acc_word [of "concat (replicate n ''w '')"] by simp
  with Suc show ?case by simp
qed

text \<open>
  C1 (as the code has it). With \<open>w\<close> the number of whitespace-separated words of the
  response, \<open>compute_efficiency_score\<close> is \<open>max(0.5, w/50)\<close> below 50 words, so it is
  0.5 up to 25 words and \<open>w/50\<close> from 25 to 49 words; it is 1.0 from 50 to 200 words;
  above 200 words it is \<open>max(0.3, 1.0 - (w-200)/500)\<close>, which is
  \<open>1.0 - (w-200)/500\<close> up to 550 words and 0.3 from 550 words on.
\<close>

theorem compute_efficiency_score_bands:
  "(length (split resp) \<le> 25 \<longrightarrow> compute_efficiency_score resp = 1 / 2) \<and>
   (25 \<le> length (split resp) \<and> length (split resp) < 50 \<longrightarrow>
      compute_efficiency_score resp = real (length (split resp)) / 50) \<and>
   (50 \<le> length (split resp) \<and> length (split resp) \<le> 200 \<longrightarrow>
      compute_efficiency_score resp = 1) \<and>
   (200 < length (split resp) \<and> length (split resp) \<le> 550 \<longrightarrow>
      compute_efficiency_score resp = 1 - (real (length (split resp)) - 200) / 500) \<and>
   (550 \<le> length (split resp) \<longrightarrow> compute_efficiency_score resp = 3 / 10)"
  by (auto simp: compute_efficiency_score_def Let_def max_def)

text \<open>The bands at responses of 10, 100 and 700 words.\<close>

theorem compute_efficiency_score_bands_witness:
  "length (split (concat (replicate 10 ''w ''))) \<le> 25 \<and>
   compute_efficiency_score (concat (replicate 10 ''w '')) = 1 / 2 \<and>
   50 \<le> length (split (concat (replicate 100 ''w ''))) \<and>
   length (split (concat (replicate 100 ''w ''))) \<le> 200 \<and>
   compute_efficiency_score (concat (replicate 100 ''w '')) = 1 \<and>
   550 \<le> length (split (concat (replicate 700 ''w ''))) \<and>
   compute_efficiency_score (concat (replicate 700 ''w '')) = 3 / 10"
proof -
  define r10 where "r10 = concat (replicate 10 ''w '')"
  define r100 where "r100 = concat (replicate 100 ''w '')"
  define r700 where "r700 = concat (replicate 700 ''w '')"
  have a: "length (split r10) = 10" and b: "length (split r100) = 100"
    and c: "length (split r700) = 700"
    unfolding r10_def r100_def r700_def by (rule word_count_replicate)+
  have "compute_efficiency_score r10 = 1 / 2"
    using compute_efficiency_score_bands [of r10] a by simp
  moreover have "compute_efficiency_score r100 = 1"
    using compute_efficiency_score_bands [of r100] b by simp
  moreover have "compute_efficiency_score r700 = 3 / 10"
    using compute_efficiency_score_bands [of r700] c by simp
  ultimately show ?thesis
    using a b c unfolding r10_def r100_def r700_def by simp
qed

text \<open>
  C1 as stated puts a 10-word response at \<open>0.5 + 10/50*0.5 = 0.6\<close>; the code returns
  \<open>max(0.5, 10/50) = 0.5\<close>.
\<close>

theorem ten_words_counterexample:
  "length (split ''a b c d e f g h i j'') = 10 \<and>
   compute_efficiency_score ''a b c d e f g h i j'' \<noteq> 1 / 2 + 10 / 50 * (1 / 2)"
  by (simp add: compute_efficiency_score_def split_def is_space_def)



text \<open>
  C10. For every response, the empty one included, \<open>compute_reasoning_score\<close> lies in
  the closed interval from 0.5 to 1.0.
\<close>

theorem compute_reasoning_score_range:
  "1 / 2 \<le> compute_reasoning_score resp \<and> compute_reasoning_score resp \<le> 1"
  unfolding compute_reasoning_score_def Let_def
  by (auto simp: min_def)


section \<open>Properties of the accuracy matcher\<close>

lemma contains_sublist: "contains sub s \<longleftrightarrow> sublist sub s"
  by (induction s) (auto simp: sublist_Cons_right)

lemma endswith_contains: "endswith s sub \<Longrightarrow> contains sub s"
  by (simp add: endswith_def contains_sublist suffix_imp_sublist)

lemma unrelated_normal:
  "strip (lower ''completely unrelated text'') = ''completely unrelated text''"
  by code_simp

lemma unrelated_numbers: "findall ''completely unrelated text'' = []"
  by code_simp




lemma digit_chars:
  "\<forall>k \<in> set [0..<10]. is_digit (char_of (48 + k)) \<and> digit_val (char_of (48 + k)) = k"
  by code_simp

lemma digit_char:
  assumes "k < 10"
  shows "is_digit (char_of (48 + k))" and "digit_val (char_of (48 + k)) = k"
  using assms digit_chars by auto

lemma is_digit_not_minus: "is_digit c \<Longrightarrow> c \<noteq> CHR ''-''"
  by (auto simp: is_digit_def)

lemma digits_all: "list_all is_digit (digits n)"
proof (induction n rule: digits.induct)
  case (1 n)
  show ?case
  proof (cases "n < 10")
    case True
    then show ?thesis by (subst digits.simps) (simp add: digit_char)
  next
    case False
    with 1 show ?thesis by (subst digits.simps) (simp add: digit_char)
  qed
qed

lemma digits_nonempty: "digits n \<noteq> []"
  by (subst digits.simps) simp

lemma digits_val_snoc: "digits_val (ds @ [c]) = 10 * digits_val ds + digit_val c"
  by (simp add: digits_val_def)

lemma digits_val_digits: "digits_val (digits n) = n"
proof (induction n rule: digits.induct)
  case (1 n)
  show ?case
  proof (cases "n < 10")
    case True
    then show ?thesis by (subst digits.simps) (simp add: digit_char digits_val_def)
  next
    case False
    with 1 show ?thesis
      by (subst digits.simps) (simp add: digit_char digits_val_snoc)
  qed
qed

lemma findall_int_part:
  "list_all is_digit ds \<Longrightarrow> findall_numbers (IntPart m) ds = [m @ ds]"
  by (induction ds arbitrary: m) auto

lemma findall_digits: "findall (digits n) = [digits n]"
proof -
  obtain d ds where eq: "digits n = d # ds"
    using digits_nonempty by (cases "digits n") auto
  with digits_all [of n] have "is_digit d" "list_all is_digit ds" by auto
  then show ?thesis
    by (simp add: findall_def eq starts_number_def findall_int_part)
qed

lemma findall_minus_digits: "findall (CHR ''-'' # digits n) = [CHR ''-'' # digits n]"
proof -
  obtain d ds where eq: "digits n = d # ds"
    using digits_nonempty by (cases "digits n") auto
  with digits_all [of n] have d: "is_digit d" and ds: "list_all is_digit ds" by auto
  have "findall_numbers (IntPart [CHR ''-'']) (d # ds) = [[CHR ''-''] @ (d # ds)]"
    using d ds by (intro findall_int_part) simp
  then show ?thesis
    using d by (simp add: findall_def eq starts_number_def)
qed

lemma takeWhile_all: "list_all P xs \<Longrightarrow> takeWhile P xs = xs"
  by (induction xs) auto

lemma dropWhile_all: "list_all P xs \<Longrightarrow> dropWhile P xs = []"
  by (induction xs) auto

lemma unsigned_float_digits: "unsigned_float (digits n) = Some (real n)"
  by (simp add: unsigned_float_def takeWhile_all dropWhile_all digits_all digits_nonempty
      digits_val_digits)

lemma float_digits: "float (digits n) = Some (real n)"
proof -
  obtain d ds where eq: "digits n = d # ds"
    using digits_nonempty by (cases "digits n") auto
  with digits_all [of n] have "d \<noteq> CHR ''-''" by (auto dest: is_digit_not_minus)
  then show ?thesis
    using unsigned_float_digits [of n] by (simp add: float_def eq)
qed

lemma float_minus_digits: "float (CHR ''-'' # digits n) = Some (- real n)"
  by (simp add: float_def unsigned_float_digits)

lemma float_str_int: "float (str_int g) = Some (of_int g)"
  by (simp add: str_int_def float_digits float_minus_digits)

lemma findall_str_int: "findall (str_int g) = [str_int g]"
  by (simp add: str_int_def findall_digits findall_minus_digits)




section \<open>Properties of the dataset loader\<close>

lemma load_difficulties_err:
  "\<not> set ds \<subseteq> set DIFFICULTIES \<Longrightarrow>
   load_difficulties fs c ds entry = Inl (ValueError ''Unknown difficulty'')"
  by (induction ds arbitrary: entry) auto

lemma load_difficulties_ok:
  "set ds \<subseteq> set DIFFICULTIES \<Longrightarrow>
   \<exists>entry'. load_difficulties fs c ds entry = Inr entry' \<and>
     (\<forall>d. map_of entry' d = (if d \<in> set ds then Some (read_tasks fs c d) else map_of entry d))"
proof (induction ds arbitrary: entry)
  case Nil
  then show ?case by simp
next
  case (Cons d ds)
  from Cons.prems have sub: "set ds \<subseteq> set DIFFICULTIES" and d: "d \<in> set DIFFICULTIES"
    by auto
  from Cons.IH [OF sub, of "AList.update d (read_tasks fs c d) entry"]
  obtain entry' where
    e: "load_difficulties fs c ds (AList.update d (read_tasks fs c d) entry) = Inr entry'"
    and m: "\<forall>x. map_of entry' x =
       (if x \<in> set ds then Some (read_tasks fs c x)
        else map_of (AList.update d (read_tasks fs c d) entry) x)"
    by blast
  have "\<forall>x. map_of entry' x =
       (if x \<in> set (d # ds) then Some (read_tasks fs c x) else map_of entry x)"
    using m by (auto simp: update_conv')
  with e d show ?case by simp
qed

lemma load_categories_fails:
  "isl (load_categories known fs cs ds acc) \<longleftrightarrow>
     \<not> set cs \<subseteq> set known \<or> (cs \<noteq> [] \<and> \<not> set ds \<subseteq> set DIFFICULTIES)"
proof (induction cs arbitrary: acc)
  case Nil
  show ?case by simp
next
  case (Cons c cs)
  show ?case
  proof (cases "c \<in> set known")
    case False
    then show ?thesis by simp
  next
    case known: True
    show ?thesis
    proof (cases "set ds \<subseteq> set DIFFICULTIES")
      case False
      then show ?thesis using known by (simp add: load_difficulties_err)
    next
      case True
      from load_difficulties_ok [OF True, of fs c "[]"]
      obtain entry where "load_difficulties fs c ds [] = Inr entry" by blast
      then show ?thesis using known True Cons.IH by simp
    qed
  qed
qed

lemma load_categories_error:
  "load_categories known fs cs ds acc = Inl e \<Longrightarrow> \<exists>msg. e = ValueError msg"
proof (induction cs arbitrary: acc)
  case Nil
  then show ?case by simp
next
  case (Cons c cs)
  show ?case
  proof (cases "set ds \<subseteq> set DIFFICULTIES")
    case False
    with Cons.prems show ?thesis
      by (auto simp: load_difficulties_err split: if_splits)
  next
    case True
    from load_difficulties_ok [OF True, of fs c "[]"]
    obtain entry where "load_difficulties fs c ds [] = Inr entry" by blast
    with Cons show ?thesis by (auto split: if_splits)
  qed
qed

lemma load_categories_ok:
  assumes "set ds \<subseteq> set DIFFICULTIES"
  shows "set cs \<subseteq> set known \<Longrightarrow>
     \<exists>r. load_categories known fs cs ds acc = Inr r \<and>
       (\<forall>c. c \<in> set cs \<or> loaded fs ds acc c \<longrightarrow> loaded fs ds r c)"
proof (induction cs arbitrary: acc)
  case Nil
  then show ?case by simp
next
  case (Cons c cs)
  from load_difficulties_ok [OF assms, of fs c "[]"]
  obtain entry where e: "load_difficulties fs c ds [] = Inr entry"
    and m: "\<forall>d \<in> set ds. map_of entry d = Some (read_tasks fs c d)" by auto
  let ?acc = "AList.update c entry acc"
  from Cons.prems have sub: "set cs \<subseteq> set known" and c: "c \<in> set known" by auto
  from Cons.IH [OF sub, of ?acc] obtain r where
    r: "load_categories known fs cs ds ?acc = Inr r"
    and l: "\<forall>x. x \<in> set cs \<or> loaded fs ds ?acc x \<longrightarrow> loaded fs ds r x" by blast
  have "loaded fs ds ?acc x" if "x = c \<or> loaded fs ds acc x" for x
    using that m by (auto simp: loaded_def update_conv')
  with l have "\<forall>x. x \<in> set (c # cs) \<or> loaded fs ds acc x \<longrightarrow> loaded fs ds r x"
    by auto
  with r e c show ?case by simp
qed




section \<open>Properties of the evaluation harness\<close>

lemma run_loop_ok:
  "\<forall>x \<in> set ts. \<not> isl (fn (prompt (snd (snd x)))) \<Longrightarrow>
   run_loop fn ts rs =
     (None, rs @ map (\<lambda>(c, d, t). evaluate_task c d t (projr (fn (prompt t)))) ts)"
proof (induction ts arbitrary: rs)
  case Nil
  show ?case by simp
next
  case (Cons x ts)
  obtain c d t where x: "x = (c, d, t)" by (cases x) auto
  from Cons.prems x obtain resp where r: "fn (prompt t) = Inr resp"
    by (cases "fn (prompt t)") auto
  from Cons.prems have "\<forall>x \<in> set ts. \<not> isl (fn (prompt (snd (snd x))))" by simp
  from Cons.IH [OF this] show ?case by (simp add: x r)
qed

lemma run_loop_abort:
  "\<forall>x \<in> set pre. \<not> isl (fn (prompt (snd (snd x)))) \<Longrightarrow> fn (prompt t) = Inl e \<Longrightarrow>
   run_loop fn (pre @ (c, d, t) # post) rs =
     (Some e, rs @ map (\<lambda>(c, d, t). evaluate_task c d t (projr (fn (prompt t)))) pre)"
proof (induction pre arbitrary: rs)
  case Nil
  then show ?case by simp
next
  case (Cons x pre)
  obtain c' d' t' where x: "x = (c', d', t')" by (cases x) auto
  from Cons.prems x obtain resp where r: "fn (prompt t') = Inr resp"
    by (cases "fn (prompt t')") auto
  from Cons.prems have "\<forall>x \<in> set pre. \<not> isl (fn (prompt (snd (snd x))))" by simp
  from Cons.IH [OF this Cons.prems(2)] show ?case by (simp add: x r)
qed

lemma default_score: "\<exists>s. compute_spatialeval_score a b c default_weights = Inr s"
  by (simp add: compute_spatialeval_score_def default_weights_def)

lemma category_scores_ok: "\<exists>cs. category_scores cats rs = Inr cs"
proof (induction cats rule: rev_induct)
  case Nil
  show ?case by (simp add: category_scores_def)
next
  case (snoc cat cats)
  then obtain cs where cs: "category_scores cats rs = Inr cs" by blast
  let ?cr = "filter (\<lambda>r. category r = cat) rs"
  obtain s where s: "compute_spatialeval_score (mean (map accuracy ?cr))
      (mean (map reasoning_score ?cr)) (mean (map efficiency_score ?cr)) default_weights = Inr s"
    using default_score by blast
  show ?case
    using cs s unfolding category_scores_def by (simp add: Let_def)
qed

lemma compute_final_scores_ok: "\<exists>rep. compute_final_scores ev = Inr rep"
proof -
  let ?rs = "results ev"
  obtain s where s: "compute_spatialeval_score (mean (map accuracy ?rs))
      (mean (map reasoning_score ?rs)) (mean (map efficiency_score ?rs)) default_weights = Inr s"
    using default_score by blast
  obtain cs where cs: "category_scores (map fst (dataset ev)) ?rs = Inr cs"
    using category_scores_ok by blast
  show ?thesis
    unfolding compute_final_scores_def by (simp add: Let_def s cs)
qed


lemma two_tasks_selected:
  "selected_tasks \<lparr>model_fn = fn, dataset = two_tasks, results = []\<rparr> None =
     [] @ (''navigation_pathfinding'', ''easy'',
           \<lparr>task_id = ''NP_easy_0001'', prompt = ''first prompt'', ground_truth = GNum 4\<rparr>) #
     [(''navigation_pathfinding'', ''easy'',
       \<lparr>task_id = ''NP_easy_0002'', prompt = ''second prompt'', ground_truth = GNum 6\<rparr>)]"
  by (simp add: selected_tasks_def all_tasks_of_def two_tasks_def)



section \<open>Properties of \<open>bfs_connected\<close>\<close>

lemma leaves_visited:
  assumes "(x, goal) \<in> (edges graph)\<^sup>*" and "x \<in> visited" and "goal \<notin> visited"
  shows "\<exists>v w. v \<in> visited \<and> w \<notin> visited \<and> (v, w) \<in> edges graph \<and>
               (w, goal) \<in> (edges graph)\<^sup>*"
  using assms
proof (induction rule: converse_rtrancl_induct)
  case base
  then show ?case by simp
next
  case (step x y)
  show ?case
  proof (cases "y \<in> visited")
    case True
    with step show ?thesis by blast
  next
    case False
    with step show ?thesis by blast
  qed
qed

lemma bfs_loop_reach:
  "goal \<notin> visited \<Longrightarrow>
   (\<forall>v w. v \<in> visited \<and> (v, w) \<in> edges graph \<longrightarrow> w \<in> visited \<or> w \<in> set queue) \<Longrightarrow>
   bfs_loop graph goal queue visited \<longleftrightarrow> (\<exists>q \<in> set queue. (q, goal) \<in> (edges graph)\<^sup>*)"
proof (induction graph goal queue visited rule: bfs_loop.induct)
  case (1 graph goal visited)
  show ?case by simp
next
  case (2 graph goal node queue visited)
  let ?E = "edges graph"
  show ?case
  proof (cases "node = goal")
    case True
    then show ?thesis by auto
  next
    case ne: False
    show ?thesis
    proof (cases "node \<in> visited")
      case True
      have inv: "\<forall>v w. v \<in> visited \<and> (v, w) \<in> ?E \<longrightarrow> w \<in> visited \<or> w \<in> set queue"
        using "2.prems"(2) True by auto
      have ih: "bfs_loop graph goal queue visited \<longleftrightarrow> (\<exists>q \<in> set queue. (q, goal) \<in> ?E\<^sup>*)"
        using "2.IH"(1) [OF ne True "2.prems"(1) inv] .
      have "\<exists>q \<in> set queue. (q, goal) \<in> ?E\<^sup>*" if "(node, goal) \<in> ?E\<^sup>*"
      proof -
        from leaves_visited [OF that True "2.prems"(1)]
        obtain v w where "v \<in> visited" "w \<notin> visited" "(v, w) \<in> ?E" "(w, goal) \<in> ?E\<^sup>*"
          by blast
        with inv show ?thesis by blast
      qed
      with ih ne True show ?thesis by auto
    next
      case False
      let ?vis = "insert node visited"
      let ?new = "filter (\<lambda>neighbor. neighbor \<notin> ?vis) (graph_get graph node)"
      let ?q = "queue @ ?new"
      have g: "goal \<notin> ?vis" using ne "2.prems"(1) by auto
      have inv: "\<forall>v w. v \<in> ?vis \<and> (v, w) \<in> ?E \<longrightarrow> w \<in> ?vis \<or> w \<in> set ?q"
      proof (intro allI impI)
        fix v w assume a: "v \<in> ?vis \<and> (v, w) \<in> ?E"
        show "w \<in> ?vis \<or> w \<in> set ?q"
        proof (cases "v = node")
          case True
          with a have "w \<in> set (graph_get graph node)" by (simp add: edges_def)
          then show ?thesis by auto
        next
          case False
          with a "2.prems"(2) have "w \<in> visited \<or> w \<in> set (node # queue)" by blast
          then show ?thesis by auto
        qed
      qed
      have ih: "bfs_loop graph goal ?q ?vis \<longleftrightarrow> (\<exists>q \<in> set ?q. (q, goal) \<in> ?E\<^sup>*)"
        using "2.IH"(2) [OF ne False g inv] .
      have "(\<exists>q \<in> set ?q. (q, goal) \<in> ?E\<^sup>*) \<longleftrightarrow>
            (\<exists>q \<in> set (node # queue). (q, goal) \<in> ?E\<^sup>*)"
      proof
        assume "\<exists>q \<in> set ?q. (q, goal) \<in> ?E\<^sup>*"
        then obtain q where q: "q \<in> set ?q" "(q, goal) \<in> ?E\<^sup>*" by blast
        show "\<exists>q \<in> set (node # queue). (q, goal) \<in> ?E\<^sup>*"
        proof (cases "q \<in> set queue")
          case True
          with q show ?thesis by auto
        next
          case False
          with q have "(node, q) \<in> ?E" by (auto simp: edges_def)
          with q have "(node, goal) \<in> ?E\<^sup>*" by (meson converse_rtrancl_into_rtrancl)
          then show ?thesis by auto
        qed
      next
        assume "\<exists>q \<in> set (node # queue). (q, goal) \<in> ?E\<^sup>*"
        then obtain q where q: "q \<in> set (node # queue)" "(q, goal) \<in> ?E\<^sup>*" by blast
        show "\<exists>q \<in> set ?q. (q, goal) \<in> ?E\<^sup>*"
        proof (cases "q \<in> set queue")
          case True
          with q show ?thesis by auto
        next
          case False
          with q have "(node, goal) \<in> ?E\<^sup>*" by auto
          from leaves_visited [OF this _ g]
          obtain v w where "v \<in> ?vis" "w \<notin> ?vis" "(v, w) \<in> ?E" "(w, goal) \<in> ?E\<^sup>*"
            by blast
          with inv show ?thesis by blast
        qed
      qed
      with ih ne False show ?thesis by simp
    qed
  qed
qed

lemma bfs_connected_reach:
  "bfs_connected graph a b \<longleftrightarrow> (a, b) \<in> (edges graph)\<^sup>*"
proof (cases "a = b")
  case True
  then show ?thesis by (simp add: bfs_connected_def)
next
  case False
  have "bfs_loop graph b [a] {} \<longleftrightarrow> (\<exists>q \<in> set [a]. (q, b) \<in> (edges graph)\<^sup>*)"
    by (rule bfs_loop_reach) auto
  with False show ?thesis by (simp add: bfs_connected_def)
qed

text \<open>
  C8. \<open>bfs_connected\<close> returns True from a node to itself, for every adjacency
  dictionary; and when the dictionary is symmetric (\<open>b\<close> is listed as a neighbour of
  \<open>a\<close> exactly when \<open>a\<close> is listed as a neighbour of \<open>b\<close>), it returns the same
  answer from \<open>a\<close> to \<open>b\<close> as from \<open>b\<close> to \<open>a\<close>.
\<close>

theorem bfs_connected_reflexive_symmetric:
  "bfs_connected graph a a \<and>
   ((\<forall>x y. y \<in> set (graph_get graph x) \<longleftrightarrow> x \<in> set (graph_get graph y)) \<longrightarrow>
      bfs_connected graph a b = bfs_connected graph b a)"
proof (intro conjI impI)
  show "bfs_connected graph a a" by (simp add: bfs_connected_def)
next
  assume s: "\<forall>x y. y \<in> set (graph_get graph x) \<longleftrightarrow> x \<in> set (graph_get graph y)"
  then have "(edges graph)\<inverse> = edges graph" by (auto simp: edges_def)
  then have "((edges graph)\<^sup>*)\<inverse> = (edges graph)\<^sup>*" by (metis rtrancl_converse)
  then have "(a, b) \<in> (edges graph)\<^sup>* \<longleftrightarrow> (b, a) \<in> (edges graph)\<^sup>*" by blast
  then show "bfs_connected graph a b = bfs_connected graph b a"
    by (simp add: bfs_connected_reach)
qed

lemma line_graph_get:
  "graph_get line_graph x =
     (if x = 1 then [2] else if x = 2 then [1, 3] else if x = 3 then [2] else [])"
  by (simp add: graph_get_def line_graph_def)

lemma line_graph_symmetric:
  "y \<in> set (graph_get line_graph x) \<longleftrightarrow> x \<in> set (graph_get line_graph y)"
  unfolding line_graph_get
  by (cases "x = 1"; cases "x = 2"; cases "x = 3"; cases "y = 1"; cases "y = 2";
      cases "y = 3"; simp)

text \<open>The path 1 - 2 - 3 with the isolated node 4.\<close>

theorem bfs_connected_reflexive_symmetric_witness:
  "bfs_connected line_graph 1 3 \<and> bfs_connected line_graph 3 1 \<and>
   \<not> bfs_connected line_graph 3 4 \<and> \<not> bfs_connected line_graph 4 3 \<and>
   bfs_connected line_graph 4 4"
proof -
  have s: "\<forall>x y. y \<in> set (graph_get line_graph x) \<longleftrightarrow> x \<in> set (graph_get line_graph y)"
    using line_graph_symmetric by blast
  have a: "bfs_connected line_graph 1 3" and b: "\<not> bfs_connected line_graph 3 4"
    by (simp_all add: bfs_connected_def line_graph_def graph_get_def)
  show ?thesis
    using bfs_connected_reflexive_symmetric [of line_graph 1 3]
      bfs_connected_reflexive_symmetric [of line_graph 3 4]
      bfs_connected_reflexive_symmetric [of line_graph 4 4] s a b
    by blast
qed

end
